theory Spec2Isabelle
  imports Complex_Main
begin

section \<open>Numerical kernels: Legendre table, square-root iteration, ODE steppers\<close>

text \<open>
  The three modules \<^verbatim>\<open>legendre.py\<close>, \<^verbatim>\<open>square_root.py\<close> and \<^verbatim>\<open>time_steppers.py\<close>
  are embedded as HOL functions. Numbers are modelled as \<^typ>\<open>real\<close>: rounding, overflow,
  infinities and NaN of IEEE double arithmetic are outside the model, so every equation
  below is an equation between the exact values of the expressions the code evaluates.
  Python integers (\<open>p\<close>, \<open>N\<close>, \<open>M\<close>, the iteration counter) are \<^typ>\<open>int\<close>; a range index
  is a \<^typ>\<open>nat\<close>. One-dimensional arrays are lists, the polynomial table is a list of
  rows. A raised exception is the \<open>Inl\<close> branch of a sum; a loop that may run forever
  returns \<open>None\<close>.
\<close>

datatype py_error = ValueError | IndexError | ZeroDivisionError

subsection \<open>The numpy primitives the code calls\<close>

text \<open>
  \<^verbatim>\<open>np.zeros(n)\<close> raises ValueError for a negative dimension and returns \<open>n\<close> zeros
  otherwise; \<^verbatim>\<open>np.zeros((r, c))\<close> likewise, for \<open>r\<close> rows of \<open>c\<close> zeros (\<open>c\<close> is a
  \<^verbatim>\<open>len\<close> here, never negative).
\<close>

definition zeros :: "int \<Rightarrow> py_error + real list" where
  "zeros n = (if n < 0 then Inl ValueError else Inr (replicate (nat n) 0))"

definition zeros2 :: "int \<Rightarrow> nat \<Rightarrow> py_error + real list list" where
  "zeros2 r c = (if r < 0 then Inl ValueError else Inr (replicate (nat r) (replicate c 0)))"

text \<open>
  \<^verbatim>\<open>np.linspace(start, stop, num)\<close> with the default \<^verbatim>\<open>endpoint=True\<close>: ValueError for a
  negative \<open>num\<close>, the empty array for \<open>num = 0\<close>, \<open>[start]\<close> for \<open>num = 1\<close>, and
  otherwise \<open>start + i * step\<close> for \<open>i = 0 .. num - 1\<close> with
  \<open>step = (stop - start) / (num - 1)\<close>, the last entry then overwritten with \<open>stop\<close>.
\<close>

definition linspace :: "real \<Rightarrow> real \<Rightarrow> int \<Rightarrow> py_error + real list" where
  "linspace start stop num =
     (if num < 0 then Inl ValueError
      else if num = 0 then Inr []
      else if num = 1 then Inr [start]
      else
        let segments = nat num - 1;
            step = (stop - start) / real segments;
            y = map (\<lambda>i. real i * step + start) [0..<nat num]
        in Inr (y[nat num - 1 := stop]))"

text \<open>
  An indexed store \<^verbatim>\<open>a[i] = v\<close> (or \<^verbatim>\<open>a[i, :] = v\<close> for a row) with a non-negative
  constant index: IndexError when the index is not below the size of the axis.
\<close>

definition setitem :: "'a list \<Rightarrow> nat \<Rightarrow> 'a \<Rightarrow> py_error + 'a list" where
  "setitem a i v = (if i < length a then Inr (a[i := v]) else Inl IndexError)"

subsection \<open>legendre.py\<close>

text \<open>
  The right-hand side of line 61,
  \<^verbatim>\<open>((2 * n - 1) * x * legendre[n - 1, :] - (n - 1) * legendre[n - 2, :]) / n\<close>,
  elementwise over the \<open>len(x)\<close> samples. It is evaluated for \<open>n \<ge> 2\<close> only, where
  rows \<open>n - 1\<close> and \<open>n - 2\<close> exist.
\<close>

definition legendre_row :: "nat \<Rightarrow> real list \<Rightarrow> real list list \<Rightarrow> real list" where
  "legendre_row n x legendre =
     map (\<lambda>i. ((2 * real n - 1) * (x ! i) * (legendre ! (n - 1) ! i)
                - (real n - 1) * (legendre ! (n - 2) ! i)) / real n)
         [0..<length x]"

text \<open>The loop \<^verbatim>\<open>for n in range(2, p + 1): legendre[n, :] = ...\<close>.\<close>

definition legendre_loop :: "real list \<Rightarrow> nat \<Rightarrow> real list list \<Rightarrow> real list list" where
  "legendre_loop x stop legendre =
     fold (\<lambda>n leg. leg[n := legendre_row n x leg]) [2..<stop] legendre"

definition compute_legendre :: "real list \<Rightarrow> int \<Rightarrow> py_error + real list list" where
  "compute_legendre x p =
     (let n_points = length x in
      case zeros2 (p + 1) n_points of
        Inl e \<Rightarrow> Inl e
      | Inr legendre \<Rightarrow>
          (case setitem legendre 0 (replicate n_points 1) of
             Inl e \<Rightarrow> Inl e
           | Inr legendre \<Rightarrow>
               let legendre = (if p \<ge> 1 then legendre[1 := x] else legendre)
               in Inr (legendre_loop x (nat (p + 1)) legendre)))"

subsection \<open>square_root.py\<close>

text \<open>
  \<open>taylor_term\<close>: the only division that can fail is \<^verbatim>\<open>delta_x / x_n**2\<close>; the divisor
  \<open>(1 - 2*k) * 4**k\<close> of the coefficient is a non-zero integer for every \<open>k\<close>.
  \<^verbatim>\<open>math.comb(2*k, k)\<close> is the binomial coefficient.
\<close>

definition taylor_term :: "nat \<Rightarrow> real \<Rightarrow> real \<Rightarrow> py_error + real" where
  "taylor_term k delta_x x_n =
     (if k = 0 then Inr 1
      else
        let coeff = (- 1) ^ k / ((1 - 2 * real k) * 4 ^ k);
            binomial = real ((2 * k) choose k)
        in if x_n ^ 2 = 0 then Inl ZeroDivisionError
           else Inr (coeff * binomial * (delta_x / x_n ^ 2) ^ k))"

text \<open>
  \<^verbatim>\<open>sum(taylor_term(k, delta_x, x_new) for k in range(N + 1))\<close>: the terms are produced in
  order and added to an accumulator that starts at 0; the first term that raises ends the
  sum with its exception.
\<close>

fun sum_terms :: "nat list \<Rightarrow> real \<Rightarrow> real \<Rightarrow> real \<Rightarrow> py_error + real" where
  "sum_terms [] delta_x x_n acc = Inr acc"
| "sum_terms (k # ks) delta_x x_n acc =
     (case taylor_term k delta_x x_n of
        Inl e \<Rightarrow> Inl e
      | Inr v \<Rightarrow> sum_terms ks delta_x x_n (acc + v))"

definition taylor_sum :: "int \<Rightarrow> real \<Rightarrow> real \<Rightarrow> py_error + real" where
  "taylor_sum N delta_x x_n = sum_terms [0..<nat (N + 1)] delta_x x_n 0"

text \<open>
  The \<^verbatim>\<open>while\<close> loop of \<open>approx_square_root\<close>, on the state \<open>(x_new, iteration_count)\<close>.
  It has no iteration bound, so its model is a partial function: \<open>None\<close> is a run that
  never leaves the loop, \<open>Some (Inl e)\<close> a run ended by an exception, \<open>Some (Inr r)\<close> a
  run that returns \<open>r\<close>.
\<close>

partial_function (option) approx_loop ::
  "real \<Rightarrow> int \<Rightarrow> real \<Rightarrow> real \<Rightarrow> int \<Rightarrow> (py_error + real \<times> int) option" where
  "approx_loop a N eps x_new iteration_count =
     (if \<bar>x_new ^ 2 - a\<bar> > eps then
        (let delta_x = a - x_new ^ 2 in
         case taylor_sum N delta_x x_new of
           Inl e \<Rightarrow> Some (Inl e)
         | Inr s \<Rightarrow> approx_loop a N eps (x_new * s) (iteration_count + 1))
      else Some (Inr (x_new, iteration_count)))"

definition approx_square_root ::
  "real \<Rightarrow> int \<Rightarrow> real \<Rightarrow> real \<Rightarrow> (py_error + real \<times> int) option" where
  "approx_square_root a N x0 eps = approx_loop a N eps x0 0"

text \<open>
  The estimate at the head of the loop after \<open>j\<close> completed passes, when there is one:
  each of the \<open>j\<close> passes was entered (tolerance unmet) and its sum did not raise.
\<close>

fun estimate_after :: "nat \<Rightarrow> real \<Rightarrow> int \<Rightarrow> real \<Rightarrow> real \<Rightarrow> real option" where
  "estimate_after 0 a N eps x_new = Some x_new"
| "estimate_after (Suc j) a N eps x_new =
     (if \<bar>x_new ^ 2 - a\<bar> > eps then
        (case taylor_sum N (a - x_new ^ 2) x_new of
           Inl e \<Rightarrow> None
         | Inr s \<Rightarrow> estimate_after j a N eps (x_new * s))
      else None)"

subsection \<open>time_steppers.py\<close>

text \<open>
  \<^verbatim>\<open>h = T / N\<close> on Python numbers raises ZeroDivisionError for \<open>N = 0\<close>.
\<close>

definition step_size :: "real \<Rightarrow> int \<Rightarrow> py_error + real" where
  "step_size T N = (if N = 0 then Inl ZeroDivisionError else Inr (T / real_of_int N))"

text \<open>
  The Euler loop \<^verbatim>\<open>for n in range(1, N): y_vals[n + 1] = y_vals[n] + h * f(t_vals[n], y_vals[n])\<close>.
  Every index it touches is at most \<open>N\<close>, inside both arrays of length \<open>N + 1\<close>.
\<close>

definition euler_loop ::
  "nat \<Rightarrow> real \<Rightarrow> (real \<Rightarrow> real \<Rightarrow> real) \<Rightarrow> real list \<Rightarrow> real list \<Rightarrow> real list" where
  "euler_loop N h f t_vals y_vals =
     fold (\<lambda>n y. y[n + 1 := y ! n + h * f (t_vals ! n) (y ! n)]) [1..<N] y_vals"

definition perform_time_stepping1 ::
  "real \<Rightarrow> int \<Rightarrow> real \<Rightarrow> real \<Rightarrow> (real \<Rightarrow> real \<Rightarrow> real) \<Rightarrow> py_error + real list \<times> real list" where
  "perform_time_stepping1 T N y0 y1 f =
     (case linspace 0 T (N + 1) of
        Inl e \<Rightarrow> Inl e
      | Inr t_vals \<Rightarrow>
     (case zeros (N + 1) of
        Inl e \<Rightarrow> Inl e
      | Inr y_vals \<Rightarrow>
     (case step_size T N of
        Inl e \<Rightarrow> Inl e
      | Inr h \<Rightarrow>
     (case setitem y_vals 0 y0 of
        Inl e \<Rightarrow> Inl e
      | Inr y_vals \<Rightarrow>
     (case setitem y_vals 1 y1 of
        Inl e \<Rightarrow> Inl e
      | Inr y_vals \<Rightarrow> Inr (t_vals, euler_loop (nat N) h f t_vals y_vals))))))"

text \<open>One pass of the Runge-Kutta loop body, lines 130 to 136.\<close>

definition rk4_step ::
  "real \<Rightarrow> (real \<Rightarrow> real \<Rightarrow> real) \<Rightarrow> real list \<Rightarrow> nat \<Rightarrow> real list \<Rightarrow> real list" where
  "rk4_step h f t_vals n y_vals =
     (let t_n = t_vals ! n;
          y_n = y_vals ! n;
          k1 = h * f t_n y_n;
          k2 = h * f (t_n + h / 2) (y_n + k1 / 2);
          k3 = h * f (t_n + h / 2) (y_n + k2 / 2);
          k4 = h * f (t_n + h) (y_n + k3)
      in y_vals[n + 1 := y_n + (k1 + 2 * k2 + 2 * k3 + k4) / 6])"

definition rk4_loop ::
  "nat \<Rightarrow> real \<Rightarrow> (real \<Rightarrow> real \<Rightarrow> real) \<Rightarrow> real list \<Rightarrow> real list \<Rightarrow> real list" where
  "rk4_loop N h f t_vals y_vals = fold (rk4_step h f t_vals) [0..<N] y_vals"

definition perform_time_stepping2 ::
  "real \<Rightarrow> int \<Rightarrow> int \<Rightarrow> real \<Rightarrow> (real \<Rightarrow> real \<Rightarrow> real) \<Rightarrow> py_error + real list \<times> real list" where
  "perform_time_stepping2 T N M y0 f =
     (case linspace 0 T (N + 1) of
        Inl e \<Rightarrow> Inl e
      | Inr t_vals \<Rightarrow>
     (case zeros (N + 1) of
        Inl e \<Rightarrow> Inl e
      | Inr y_vals \<Rightarrow>
     (case step_size T N of
        Inl e \<Rightarrow> Inl e
      | Inr h \<Rightarrow>
     (case setitem y_vals 0 y0 of
        Inl e \<Rightarrow> Inl e
      | Inr y_vals \<Rightarrow> Inr (t_vals, rk4_loop (nat N) h f t_vals y_vals)))))"

section \<open>Properties of the Legendre table\<close>

text \<open>
  The loop up to \<open>Suc k\<close> is the loop up to \<open>k\<close> followed by the store into row \<open>k\<close>;
  below degree 2 it does nothing.
\<close>

lemma legendre_loop_Suc:
  "2 \<le> k \<Longrightarrow> legendre_loop x (Suc k) leg =
     (legendre_loop x k leg)[k := legendre_row k x (legendre_loop x k leg)]"
  by (simp add: legendre_loop_def)

lemma legendre_loop_base: "k \<le> 2 \<Longrightarrow> legendre_loop x k leg = leg"
  by (simp add: legendre_loop_def)

lemma legendre_row_cong:
  "leg ! (n - 1) = leg' ! (n - 1) \<Longrightarrow> leg ! (n - 2) = leg' ! (n - 2) \<Longrightarrow>
   legendre_row n x leg = legendre_row n x leg'"
  by (simp add: legendre_row_def)

lemma length_legendre_row: "length (legendre_row n x leg) = length x"
  by (simp add: legendre_row_def)

lemma length_legendre_loop: "length (legendre_loop x k leg) = length leg"
proof (induction k)
  case 0
  then show ?case by (simp add: legendre_loop_base)
next
  case (Suc k)
  then show ?case
    by (cases "2 \<le> k") (simp_all add: legendre_loop_Suc legendre_loop_base)
qed

lemma legendre_loop_untouched:
  "r < 2 \<or> k \<le> r \<Longrightarrow> legendre_loop x k leg ! r = leg ! r"
proof (induction k)
  case 0
  then show ?case by (simp add: legendre_loop_base)
next
  case (Suc k)
  show ?case
  proof (cases "2 \<le> k")
    case True
    with Suc.prems have "r \<noteq> k" by auto
    with Suc True show ?thesis by (auto simp: legendre_loop_Suc)
  next
    case False
    then show ?thesis by (simp add: legendre_loop_base)
  qed
qed

lemma legendre_loop_recurrence:
  "2 \<le> n \<Longrightarrow> n < k \<Longrightarrow> n < length leg \<Longrightarrow>
   legendre_loop x k leg ! n = legendre_row n x (legendre_loop x k leg)"
proof (induction k)
  case 0
  then show ?case by simp
next
  case (Suc k)
  let ?L = "legendre_loop x k leg"
  from Suc.prems have k2: "2 \<le> k" by simp
  then have step: "legendre_loop x (Suc k) leg = ?L[k := legendre_row k x ?L]"
    by (rule legendre_loop_Suc)
  have len: "length ?L = length leg" by (rule length_legendre_loop)
  show ?case
  proof (cases "n = k")
    case True
    have "legendre_row k x (?L[k := legendre_row k x ?L]) = legendre_row k x ?L"
      using k2 by (intro legendre_row_cong) simp_all
    with True Suc.prems len show ?thesis by (simp add: step)
  next
    case False
    with Suc.prems have nk: "n < k" by simp
    then have "legendre_row n x (?L[k := legendre_row k x ?L]) = legendre_row n x ?L"
      by (intro legendre_row_cong) simp_all
    moreover have "?L ! n = legendre_row n x ?L"
      using Suc.IH Suc.prems nk by simp
    ultimately show ?thesis using nk by (simp add: step)
  qed
qed

lemma legendre_loop_row_lengths:
  "\<forall>r < length leg. length (leg ! r) = length x \<Longrightarrow> r < length leg \<Longrightarrow>
   length (legendre_loop x k leg ! r) = length x"
proof (induction k)
  case 0
  then show ?case by (simp add: legendre_loop_base)
next
  case (Suc k)
  show ?case
  proof (cases "2 \<le> k")
    case True
    with Suc show ?thesis
      by (cases "r = k") (simp_all add: legendre_loop_Suc length_legendre_loop length_legendre_row)
  next
    case False
    with Suc.prems show ?thesis by (simp add: legendre_loop_base)
  qed
qed

lemma compute_legendre_eq:
  "0 \<le> p \<Longrightarrow> compute_legendre x p =
     Inr (legendre_loop x (nat (p + 1))
       (let leg = (replicate (nat (p + 1)) (replicate (length x) 0))[0 := replicate (length x) 1]
        in if 1 \<le> p then leg[1 := x] else leg))"
  by (simp add: compute_legendre_def zeros2_def setitem_def Let_def)

text \<open>
  C4. For every \<open>p \<ge> 0\<close> and every sample vector \<open>x\<close>, \<open>compute_legendre x p\<close> returns a
  table of \<open>p + 1\<close> rows, each of length \<open>len(x)\<close>; row 0 is all ones and, when
  \<open>p \<ge> 1\<close>, row 1 is \<open>x\<close>.
\<close>

theorem compute_legendre_shape_and_seed_rows:
  assumes "0 \<le> p"
  shows "\<exists>tab. compute_legendre x p = Inr tab \<and> length tab = nat (p + 1)
     \<and> (\<forall>row \<in> set tab. length row = length x)
     \<and> tab ! 0 = replicate (length x) 1
     \<and> (1 \<le> p \<longrightarrow> tab ! 1 = x)"
proof -
  define init where "init = (let leg = (replicate (nat (p + 1)) (replicate (length x) (0::real)))[0 := replicate (length x) 1]
        in if 1 \<le> p then leg[1 := x] else leg)"
  define tab where "tab = legendre_loop x (nat (p + 1)) init"
  have eq: "compute_legendre x p = Inr tab"
    using assms by (simp add: compute_legendre_eq tab_def init_def)
  have li: "length init = nat (p + 1)" by (simp add: init_def Let_def)
  have rows: "\<forall>r < length init. length (init ! r) = length x"
    by (auto simp: init_def Let_def nth_list_update)
  have len: "length tab = nat (p + 1)" by (simp add: tab_def length_legendre_loop li)
  have "\<forall>r < length tab. length (tab ! r) = length x"
    using rows by (simp add: tab_def length_legendre_loop legendre_loop_row_lengths)
  then have rl: "\<forall>row \<in> set tab. length row = length x"
    by (auto simp: in_set_conv_nth)
  have "tab ! 0 = init ! 0" by (simp add: tab_def legendre_loop_untouched)
  also have "\<dots> = replicate (length x) 1" using assms by (simp add: init_def Let_def)
  finally have r0: "tab ! 0 = replicate (length x) 1" .
  have r1: "1 \<le> p \<longrightarrow> tab ! 1 = x"
  proof
    assume "1 \<le> p"
    have "tab ! 1 = init ! 1" by (simp add: tab_def legendre_loop_untouched)
    also have "\<dots> = x" using \<open>1 \<le> p\<close> by (simp add: init_def Let_def)
    finally show "tab ! 1 = x" .
  qed
  from eq len rl r0 r1 show ?thesis by blast
qed

theorem compute_legendre_shape_and_seed_rows_witness:
  "(0::int) \<le> 1 \<and> (\<exists>tab. compute_legendre [1 / 2, 3] 1 = Inr tab \<and> length tab = 2
     \<and> length (tab ! 0) = 2 \<and> length (tab ! 1) = 2
     \<and> tab ! 0 = [1, 1] \<and> tab ! 1 = [1 / 2, 3])"
proof -
  from compute_legendre_shape_and_seed_rows [of 1 "[1 / 2, 3]"] obtain tab where
    eq: "compute_legendre [1 / 2, 3] 1 = Inr tab" and len: "length tab = 2"
    and rows: "\<forall>row \<in> set tab. length row = 2"
    and r0: "tab ! 0 = [1, 1]" and r1: "tab ! 1 = [1 / 2, 3]"
    by (auto simp: numeral_2_eq_2)
  from len rows have "length (tab ! 0) = 2" "length (tab ! 1) = 2"
    by (simp_all add: r0 r1)
  with eq len r0 r1 show ?thesis by auto
qed

text \<open>
  C1. For every \<open>p \<ge> 2\<close> and every degree \<open>n\<close> with \<open>2 \<le> n \<le> p\<close>, row \<open>n\<close> of the
  returned table satisfies the three-term recurrence against rows \<open>n - 1\<close> and \<open>n - 2\<close>
  of the same table, at every sample index.
\<close>

theorem compute_legendre_recurrence:
  assumes "2 \<le> p" "2 \<le> n" "int n \<le> p"
  shows "\<exists>tab. compute_legendre x p = Inr tab \<and> length (tab ! n) = length x \<and>
     (\<forall>i < length x. tab ! n ! i =
        ((2 * real n - 1) * (x ! i) * (tab ! (n - 1) ! i) - (real n - 1) * (tab ! (n - 2) ! i)) / real n)"
proof -
  define init where "init = (let leg = (replicate (nat (p + 1)) (replicate (length x) (0::real)))[0 := replicate (length x) 1]
        in if 1 \<le> p then leg[1 := x] else leg)"
  define tab where "tab = legendre_loop x (nat (p + 1)) init"
  have eq: "compute_legendre x p = Inr tab"
    using assms by (simp add: compute_legendre_eq tab_def init_def)
  have li: "length init = nat (p + 1)" by (simp add: init_def Let_def)
  have "tab ! n = legendre_row n x tab"
    unfolding tab_def using assms li by (intro legendre_loop_recurrence) simp_all
  then have "tab ! n = map (\<lambda>i. ((2 * real n - 1) * (x ! i) * (tab ! (n - 1) ! i)
                - (real n - 1) * (tab ! (n - 2) ! i)) / real n) [0..<length x]"
    by (simp add: legendre_row_def)
  then have "length (tab ! n) = length x \<and> (\<forall>i < length x. tab ! n ! i =
        ((2 * real n - 1) * (x ! i) * (tab ! (n - 1) ! i) - (real n - 1) * (tab ! (n - 2) ! i)) / real n)"
    by (metis (no_types, lifting) length_map length_upt diff_zero nth_map_upt add_0)
  with eq show ?thesis by blast
qed

theorem compute_legendre_recurrence_witness:
  "(2::int) \<le> 2 \<and> (2::nat) \<le> 2 \<and> int 2 \<le> (2::int)
   \<and> (\<exists>tab. compute_legendre [1 / 2] 2 = Inr tab \<and> length (tab ! 2) = 1
        \<and> tab ! 2 ! 0 = ((2 * 2 - 1) * (1 / 2) * (tab ! 1 ! 0) - (2 - 1) * (tab ! 0 ! 0)) / 2)"
proof -
  from compute_legendre_recurrence [of 2 2 "[1 / 2]"] obtain tab where
    eq: "compute_legendre [1 / 2] 2 = Inr tab" and len: "length (tab ! 2) = 1"
    and rec: "\<forall>i < 1. tab ! 2 ! i =
        ((2 * real 2 - 1) * ([1 / 2] ! i) * (tab ! (2 - 1) ! i) - (real 2 - 1) * (tab ! (2 - 2) ! i)) / real 2"
    by auto
  from rec have "tab ! 2 ! 0 = ((2 * 2 - 1) * (1 / 2) * (tab ! 1 ! 0) - (2 - 1) * (tab ! 0 ! 0)) / 2"
    by simp
  with eq len show ?thesis by auto
qed

text \<open>
  C9 (as stated: every \<open>p < 0\<close> is rejected with an invalid-argument error). The code
  has no check of \<open>p\<close>. For \<open>p = -1\<close> the table has no rows and the store into row 0
  raises IndexError, an out-of-range access and not a rejection of the argument.
\<close>

theorem compute_legendre_degree_minus_one_counterexample:
  "compute_legendre [1 / 2] (- 1) = Inl IndexError"
  by (simp add: compute_legendre_def zeros2_def setitem_def Let_def)


text \<open>
  C9 (amended). For every \<open>p < 0\<close> the call fails and returns no table: with the
  ValueError of \<^verbatim>\<open>np.zeros\<close> for a negative dimension when \<open>p \<le> -2\<close>, and with the
  IndexError of the store into row 0 when \<open>p = -1\<close>.
\<close>

theorem compute_legendre_negative_degree_fails:
  "p < 0 \<Longrightarrow> compute_legendre x p = Inl (if p = - 1 then IndexError else ValueError)"
  by (simp add: compute_legendre_def zeros2_def setitem_def Let_def)

theorem compute_legendre_negative_degree_fails_witness:
  "(- 3 :: int) < 0 \<and> compute_legendre [1 / 2] (- 3) = Inl ValueError"
  using compute_legendre_negative_degree_fails [of "- 3" "[1 / 2]"] by simp

section \<open>Properties of the square-root iteration\<close>

lemma taylor_sum_zero: "taylor_sum 0 d x = Inr 1"
  by (simp add: taylor_sum_def taylor_term_def)

text \<open>With \<open>N = 0\<close> a loop that returns anything was started with the tolerance met.\<close>

lemma approx_loop_stuck:
  assumes "approx_loop a N eps x c = Some r"
  shows "N = 0 \<longrightarrow> \<not> eps < \<bar>x ^ 2 - a\<bar>"
proof (rule approx_loop.raw_induct
    [where P = "\<lambda>a N eps x c r. N = 0 \<longrightarrow> \<not> eps < \<bar>x ^ 2 - a\<bar>", OF _ assms])
  fix loop a N eps x c r
  assume IH: "\<And>a N eps x c r. loop a N eps x c = Some r \<Longrightarrow> N = 0 \<longrightarrow> \<not> eps < \<bar>x ^ 2 - a\<bar>"
    and body: "(if eps < \<bar>x ^ 2 - a\<bar>
        then let delta_x = a - x ^ 2
             in case taylor_sum N delta_x x of Inl e \<Rightarrow> Some (Inl e)
                | Inr s \<Rightarrow> loop a N eps (x * s) (c + 1)
        else Some (Inr (x, c))) = Some r"
  show "N = 0 \<longrightarrow> \<not> eps < \<bar>x ^ 2 - a\<bar>"
  proof (intro impI notI)
    assume n: "N = 0" and g: "eps < \<bar>x ^ 2 - a\<bar>"
    with body have "loop a N eps x (c + 1) = Some r"
      by (simp add: taylor_sum_zero)
    with IH n g show False by blast
  qed
qed

lemma upt_two: "2 \<le> n \<Longrightarrow> [0..<n] = 0 # 1 # [2..<n]"
  by (simp add: upt_conv_Cons numeral_2_eq_2)

text \<open>At a zero estimate the term \<open>k = 1\<close> divides by zero, whatever follows it.\<close>

lemma taylor_sum_at_zero: "1 \<le> N \<Longrightarrow> taylor_sum N d 0 = Inl ZeroDivisionError"
proof -
  assume "1 \<le> N"
  then have "[0..<nat (N + 1)] = 0 # 1 # [2..<nat (N + 1)]"
    by (intro upt_two) simp
  then show ?thesis
    by (simp add: taylor_sum_def taylor_term_def)
qed

lemma approx_loop_at_zero:
  "1 \<le> N \<Longrightarrow> eps < \<bar>a\<bar> \<Longrightarrow> approx_loop a N eps 0 c = Some (Inl ZeroDivisionError)"
  by (subst approx_loop.simps) (simp add: taylor_sum_at_zero)

text \<open>A run that completes \<open>j\<close> passes continues as the loop started at the estimate reached.\<close>

lemma approx_loop_after:
  "estimate_after j a N eps x = Some z \<Longrightarrow>
   approx_loop a N eps x c = approx_loop a N eps z (c + int j)"
proof (induction j arbitrary: x c)
  case 0
  then show ?case by simp
next
  case (Suc j)
  from Suc.prems obtain s where g: "eps < \<bar>x ^ 2 - a\<bar>"
    and s: "taylor_sum N (a - x ^ 2) x = Inr s"
    and e: "estimate_after j a N eps (x * s) = Some z"
    by (auto split: if_splits sum.splits)
  have "approx_loop a N eps x c = approx_loop a N eps (x * s) (c + 1)"
    by (subst approx_loop.simps) (simp add: g s)
  also have "\<dots> = approx_loop a N eps z (c + 1 + int j)"
    by (rule Suc.IH[OF e])
  finally show ?case by (simp add: add.assoc)
qed

lemma taylor_sum_two: "taylor_sum 2 d 1 = Inr (1 + d / 2 - d ^ 2 / 8)"
  by (simp add: taylor_sum_def taylor_term_def upt_two eval_nat_numeral field_simps)

text \<open>
  From \<open>x0 = 1\<close> with \<open>a = 3 + 2 * sqrt 3\<close> and \<open>N = 2\<close> the correction factor of the
  first pass is \<open>1 + d/2 - d\<^sup>2/8 = 0\<close> for \<open>d = 2 + 2 * sqrt 3\<close>, so the estimate is 0 after
  one pass.
\<close>

lemma estimate_after_reaches_zero:
  "estimate_after (Suc 0) (3 + 2 * sqrt 3) 2 1 1 = Some 0"
proof -
  have "(2 + 2 * sqrt 3) ^ 2 = 16 + 8 * sqrt 3"
    by (simp add: power2_eq_square algebra_simps)
  then have "taylor_sum 2 (3 + 2 * sqrt 3 - 1 ^ 2) 1 = Inr 0"
    by (simp add: taylor_sum_two)
  moreover have "0 \<le> sqrt 3" by simp
  then have "1 < \<bar>1 ^ 2 - (3 + 2 * sqrt 3)\<bar>" unfolding power_one by linarith
  ultimately show ?thesis by simp
qed

text \<open>
  C5. When \<open>x0\<^sup>2 = a\<close> exactly (with \<open>a > 0\<close>, \<open>N \<ge> 0\<close>, \<open>eps > 0\<close>), the loop guard is
  false on entry: \<open>approx_square_root\<close> returns \<open>x0\<close> with iteration count 0.
\<close>

theorem approx_square_root_exact_guess:
  "a > 0 \<Longrightarrow> N \<ge> 0 \<Longrightarrow> x0 ^ 2 = a \<Longrightarrow> eps > 0 \<Longrightarrow>
   approx_square_root a N x0 eps = Some (Inr (x0, 0))"
  by (simp add: approx_square_root_def approx_loop.simps)

theorem approx_square_root_exact_guess_witness:
  "(0::real) < 4 \<and> (0::int) \<le> 2 \<and> (2::real) ^ 2 = 4 \<and> (0::real) < 1 / 10
   \<and> approx_square_root 4 2 2 (1 / 10) = Some (Inr (2, 0))"
  using approx_square_root_exact_guess [of 4 2 2 "1 / 10"] by simp

text \<open>
  C6. If the estimate at the head of the loop is exactly 0 after some number \<open>j\<close> of
  completed passes, the tolerance is unmet there (\<open>\<bar>0\<^sup>2 - a\<bar> > eps\<close>) and \<open>N \<ge> 1\<close>, then
  the call ends with ZeroDivisionError: it neither returns a result nor runs on.
  (The division is Python's \<^verbatim>\<open>/\<close> on Python numbers, which raises on a zero divisor.)
\<close>

theorem approx_square_root_zero_estimate_raises:
  "estimate_after j a N eps x0 = Some 0 \<Longrightarrow> eps < \<bar>0 ^ 2 - a\<bar> \<Longrightarrow> 1 \<le> N \<Longrightarrow>
   approx_square_root a N x0 eps = Some (Inl ZeroDivisionError)"
  unfolding approx_square_root_def
  by (simp add: approx_loop_after [of j a N eps x0 0 0] approx_loop_at_zero)

theorem approx_square_root_zero_estimate_raises_witness:
  "estimate_after (Suc 0) (3 + 2 * sqrt 3) 2 1 1 = Some 0
   \<and> (1::real) < \<bar>0 ^ 2 - (3 + 2 * sqrt 3)\<bar> \<and> (1::int) \<le> 2
   \<and> approx_square_root (3 + 2 * sqrt 3) 2 1 1 = Some (Inl ZeroDivisionError)"
proof -
  have h1: "estimate_after (Suc 0) (3 + 2 * sqrt 3) 2 1 1 = Some 0"
    by (rule estimate_after_reaches_zero)
  have "0 \<le> sqrt 3" by simp
  then have h2: "(1::real) < \<bar>0 ^ 2 - (3 + 2 * sqrt 3)\<bar>"
    unfolding zero_power2 by linarith
  have h3: "(1::int) \<le> 2" by simp
  from approx_square_root_zero_estimate_raises [OF h1 h2 h3] h1 h2 h3
  show ?thesis by blast
qed

text \<open>
  C7. The loop has no iteration bound, and there are inputs inside the stated
  preconditions on which it never ends: with \<open>N = 0\<close> the correction factor is 1, the
  estimate never changes, and whenever \<open>\<bar>x0\<^sup>2 - a\<bar> > eps\<close> the call does not return.
\<close>

theorem approx_square_root_no_terms_diverges:
  "a > 0 \<Longrightarrow> x0 \<noteq> 0 \<Longrightarrow> eps > 0 \<Longrightarrow> eps < \<bar>x0 ^ 2 - a\<bar> \<Longrightarrow>
   approx_square_root a 0 x0 eps = None"
  unfolding approx_square_root_def
  using approx_loop_stuck [of a 0 eps x0 0]
  by (cases "approx_loop a 0 eps x0 0") auto

theorem approx_square_root_no_terms_diverges_witness:
  "(0::real) < 2 \<and> (1::real) \<noteq> 0 \<and> (0::real) < 1 / 2 \<and> (1 / 2 :: real) < \<bar>1 ^ 2 - 2\<bar>
   \<and> approx_square_root 2 0 1 (1 / 2) = None"
  using approx_square_root_no_terms_diverges [of 2 1 "1 / 2"] by simp

section \<open>Properties of the time steppers\<close>

text \<open>
  The grid \<^verbatim>\<open>np.linspace(0, T, N + 1)\<close> for \<open>N \<ge> 1\<close>: \<open>N + 1\<close> points, the \<open>n\<close>-th at
  \<open>n * T / N\<close> (the overwritten last entry \<open>T\<close> is \<open>N * T / N\<close>).
\<close>

lemma linspace_grid:
  assumes "1 \<le> N"
  shows "\<exists>t. linspace 0 T (N + 1) = Inr t \<and> length t = nat (N + 1)
     \<and> (\<forall>n \<le> nat N. t ! n = real n * T / real_of_int N)"
proof -
  define t where "t = (map (\<lambda>i. real i * (T / real (nat N)) + 0) [0..<nat (N + 1)])[nat N := T]"
  have nn: "nat (N + 1) - 1 = nat N" "nat (N + 1) = Suc (nat N)" using assms by auto
  have eq: "linspace 0 T (N + 1) = Inr t"
    using assms by (simp add: linspace_def Let_def t_def nn)
  have len: "length t = nat (N + 1)" by (simp add: t_def)
  have rN: "real (nat N) = real_of_int N" using assms by simp
  have "t ! n = real n * T / real_of_int N" if "n \<le> nat N" for n
  proof (cases "n = nat N")
    case True
    then show ?thesis using assms by (simp add: t_def nn)
  next
    case False
    with that have "n < nat N" by simp
    then show ?thesis by (simp add: t_def nn rN del: upt_Suc)
  qed
  with eq len show ?thesis by blast
qed

subsection \<open>Explicit Euler with two seed values\<close>

text \<open>
  The loop up to \<open>Suc k\<close> is the loop up to \<open>k\<close> followed by the store into index
  \<open>k + 1\<close>; it never writes index 0 or 1.
\<close>

lemma euler_loop_Suc:
  "1 \<le> k \<Longrightarrow> euler_loop (Suc k) h f t y =
     (euler_loop k h f t y)[k + 1 := euler_loop k h f t y ! k + h * f (t ! k) (euler_loop k h f t y ! k)]"
  by (simp add: euler_loop_def)

lemma euler_loop_base: "k \<le> 1 \<Longrightarrow> euler_loop k h f t y = y"
  by (simp add: euler_loop_def)

lemma length_euler_loop: "length (euler_loop k h f t y) = length y"
proof (induction k)
  case 0
  then show ?case by (simp add: euler_loop_base)
next
  case (Suc k)
  then show ?case
    by (cases "1 \<le> k") (simp_all add: euler_loop_Suc euler_loop_base)
qed

lemma euler_loop_untouched:
  "r \<le> 1 \<or> k < r \<Longrightarrow> euler_loop k h f t y ! r = y ! r"
proof (induction k)
  case 0
  then show ?case by (simp add: euler_loop_base)
next
  case (Suc k)
  show ?case
  proof (cases "1 \<le> k")
    case True
    with Suc.prems have "r \<noteq> k + 1" by auto
    with Suc True show ?thesis by (auto simp: euler_loop_Suc)
  next
    case False
    then show ?thesis by (simp add: euler_loop_base)
  qed
qed

lemma euler_loop_update:
  "1 \<le> n \<Longrightarrow> n < k \<Longrightarrow> n + 1 < length y \<Longrightarrow>
   euler_loop k h f t y ! (n + 1) =
     euler_loop k h f t y ! n + h * f (t ! n) (euler_loop k h f t y ! n)"
proof (induction k)
  case 0
  then show ?case by simp
next
  case (Suc k)
  let ?Y = "euler_loop k h f t y"
  from Suc.prems have k1: "1 \<le> k" by simp
  then have step: "euler_loop (Suc k) h f t y = ?Y[k + 1 := ?Y ! k + h * f (t ! k) (?Y ! k)]"
    by (rule euler_loop_Suc)
  have len: "length ?Y = length y" by (rule length_euler_loop)
  show ?case
  proof (cases "n = k")
    case True
    with Suc.prems len show ?thesis by (simp add: step)
  next
    case False
    with Suc.prems have nk: "n < k" by simp
    with Suc.IH Suc.prems have "?Y ! (n + 1) = ?Y ! n + h * f (t ! n) (?Y ! n)" by simp
    with nk show ?thesis by (simp add: step)
  qed
qed

text \<open>Two runs whose arrays agree from index 1 on keep agreeing from index 1 on.\<close>

lemma euler_loop_seed:
  "length y = length y' \<Longrightarrow> (\<forall>r. 1 \<le> r \<and> r < length y \<longrightarrow> y ! r = y' ! r) \<Longrightarrow>
   1 \<le> r \<Longrightarrow> r < length y \<Longrightarrow>
   euler_loop k h f t y ! r = euler_loop k h f t y' ! r"
proof (induction k arbitrary: r)
  case 0
  then show ?case by (simp add: euler_loop_base)
next
  case (Suc k)
  show ?case
  proof (cases "1 \<le> k")
    case True
    let ?Y = "euler_loop k h f t y" and ?Y' = "euler_loop k h f t y'"
    have len: "length ?Y = length y" "length ?Y' = length y'" by (rule length_euler_loop)+
    have same: "?Y ! j = ?Y' ! j" if "1 \<le> j" "j < length y" for j
      using Suc.IH [OF Suc.prems(1,2) that] .
    show ?thesis
    proof (cases "r = k + 1")
      case True
      have "k < length y" using True Suc.prems by simp
      with same [of k] \<open>1 \<le> k\<close> have "?Y ! k = ?Y' ! k" by simp
      with True Suc.prems len \<open>1 \<le> k\<close> show ?thesis by (simp add: euler_loop_Suc)
    next
      case False
      with same [of r] Suc.prems \<open>1 \<le> k\<close> show ?thesis by (simp add: euler_loop_Suc)
    qed
  next
    case False
    with Suc.prems show ?thesis by (simp add: euler_loop_base)
  qed
qed

lemma perform_time_stepping1_eq:
  "1 \<le> N \<Longrightarrow> linspace 0 T (N + 1) = Inr t \<Longrightarrow>
   perform_time_stepping1 T N y0 y1 f =
     Inr (t, euler_loop (nat N) (T / real_of_int N) f t ((replicate (nat (N + 1)) 0)[0 := y0, 1 := y1]))"
  by (simp add: perform_time_stepping1_def zeros_def step_size_def setitem_def)

text \<open>
  C2. For \<open>T > 0\<close> and \<open>N \<ge> 1\<close>, \<open>perform_time_stepping1\<close> returns two arrays of length
  \<open>N + 1\<close>; the time array is the even grid \<open>t[n] = n * T / N\<close> from 0 to \<open>T\<close>;
  \<open>y[0] = y0\<close>; \<open>y[1]\<close> is the supplied \<open>y1\<close>, not an Euler step; and
  \<open>y[n + 1] = y[n] + h * f(t[n], y[n])\<close> with \<open>h = T / N\<close> holds for \<open>n = 1 .. N - 1\<close>.
\<close>

theorem perform_time_stepping1_contract:
  assumes "0 < T" "1 \<le> N"
  shows "\<exists>t y. perform_time_stepping1 T N y0 y1 f = Inr (t, y)
     \<and> length t = nat (N + 1) \<and> length y = nat (N + 1)
     \<and> (\<forall>n \<le> nat N. t ! n = real n * T / real_of_int N)
     \<and> t ! 0 = 0 \<and> t ! nat N = T
     \<and> y ! 0 = y0 \<and> y ! 1 = y1
     \<and> (\<forall>n. 1 \<le> n \<and> n < nat N \<longrightarrow>
           y ! (n + 1) = y ! n + (T / real_of_int N) * f (t ! n) (y ! n))"
proof -
  from linspace_grid [OF assms(2), of T] obtain t where
    lin: "linspace 0 T (N + 1) = Inr t" and lt: "length t = nat (N + 1)"
    and grid: "\<forall>n \<le> nat N. t ! n = real n * T / real_of_int N"
    by blast
  define seed where "seed = (replicate (nat (N + 1)) (0::real))[0 := y0, 1 := y1]"
  define y where "y = euler_loop (nat N) (T / real_of_int N) f t seed"
  have eq: "perform_time_stepping1 T N y0 y1 f = Inr (t, y)"
    using assms(2) lin by (simp add: perform_time_stepping1_eq y_def seed_def)
  have ls: "length seed = nat (N + 1)" by (simp add: seed_def)
  have ly: "length y = nat (N + 1)" by (simp add: y_def length_euler_loop ls)
  have s0: "seed ! 0 = y0" and s1: "seed ! 1 = y1"
    using assms(2) by (simp_all add: seed_def)
  have y0: "y ! 0 = y0" by (simp add: y_def euler_loop_untouched s0)
  have y1: "y ! 1 = y1" using s1 by (simp add: y_def euler_loop_untouched)
  have t0: "t ! 0 = 0" using grid by simp
  have tN: "t ! nat N = T" using grid assms(2) by simp
  have "y ! (n + 1) = y ! n + (T / real_of_int N) * f (t ! n) (y ! n)"
    if "1 \<le> n" "n < nat N" for n
    unfolding y_def using that ls by (intro euler_loop_update) simp_all
  then have upd: "\<forall>n. 1 \<le> n \<and> n < nat N \<longrightarrow>
           y ! (n + 1) = y ! n + (T / real_of_int N) * f (t ! n) (y ! n)"
    by blast
  from eq lt ly grid t0 tN y0 y1 upd show ?thesis by blast
qed

theorem perform_time_stepping1_contract_witness:
  "(0::real) < 1 \<and> (1::int) \<le> 2
   \<and> (\<exists>t y. perform_time_stepping1 1 2 0 1 (\<lambda>t y. t - 2 * y) = Inr (t, y)
        \<and> length t = 3 \<and> length y = 3
        \<and> t ! 0 = 0 \<and> t ! 1 = 1 / 2 \<and> t ! 2 = 1
        \<and> y ! 0 = 0 \<and> y ! 1 = 1 \<and> y ! 2 = y ! 1 + (1 / 2) * (t ! 1 - 2 * y ! 1))"
proof -
  from perform_time_stepping1_contract [of 1 2 0 1 "\<lambda>t y. t - 2 * y"] obtain t y where
    eq: "perform_time_stepping1 1 2 0 1 (\<lambda>t y. t - 2 * y) = Inr (t, y)"
    and len: "length t = 3" "length y = 3"
    and grid: "\<forall>n \<le> 2. t ! n = real n * 1 / real_of_int 2"
    and ends: "t ! 0 = 0" "t ! 2 = 1"
    and seeds: "y ! 0 = 0" "y ! 1 = 1"
    and upd: "\<forall>n. 1 \<le> n \<and> n < 2 \<longrightarrow> y ! (n + 1) = y ! n + (1 / real_of_int 2) * (t ! n - 2 * y ! n)"
    by auto
  from grid have t1: "t ! 1 = 1 / 2" by simp
  from upd have "y ! (1 + 1) = y ! 1 + (1 / real_of_int 2) * (t ! 1 - 2 * y ! 1)" by simp
  then have y2: "y ! 2 = y ! 1 + (1 / 2) * (t ! 1 - 2 * y ! 1)" by (simp add: numeral_2_eq_2)
  from eq len ends t1 seeds y2 show ?thesis by auto
qed

text \<open>
  C10. For \<open>T > 0\<close> and \<open>N \<ge> 1\<close>, two calls of \<open>perform_time_stepping1\<close> that differ
  only in \<open>y0\<close> return the same time grid and solution arrays that agree at every
  index \<open>1 .. N\<close>: \<open>y0\<close> reaches index 0 only.
\<close>

theorem perform_time_stepping1_y0_only_index_zero:
  assumes "0 < T" "1 \<le> N"
  shows "\<exists>t y y'. perform_time_stepping1 T N y0 y1 f = Inr (t, y)
     \<and> perform_time_stepping1 T N y0' y1 f = Inr (t, y')
     \<and> length y = nat (N + 1) \<and> length y' = nat (N + 1)
     \<and> (\<forall>n. 1 \<le> n \<and> n \<le> nat N \<longrightarrow> y ! n = y' ! n)"
proof -
  from linspace_grid [OF assms(2), of T] obtain t where
    lin: "linspace 0 T (N + 1) = Inr t" by blast
  define seed where "seed = (\<lambda>v. (replicate (nat (N + 1)) (0::real))[0 := v, 1 := y1])"
  define y where "y = euler_loop (nat N) (T / real_of_int N) f t (seed y0)"
  define y' where "y' = euler_loop (nat N) (T / real_of_int N) f t (seed y0')"
  have eq: "perform_time_stepping1 T N y0 y1 f = Inr (t, y)"
    and eq': "perform_time_stepping1 T N y0' y1 f = Inr (t, y')"
    using assms(2) lin by (simp_all add: perform_time_stepping1_eq y_def y'_def seed_def)
  have ls: "length (seed v) = nat (N + 1)" for v by (simp add: seed_def)
  have ly: "length y = nat (N + 1)" "length y' = nat (N + 1)"
    by (simp_all add: y_def y'_def length_euler_loop ls)
  have seeds: "\<forall>r. 1 \<le> r \<and> r < length (seed y0) \<longrightarrow> seed y0 ! r = seed y0' ! r"
    by (auto simp: seed_def nth_list_update)
  have "y ! n = y' ! n" if "1 \<le> n" "n \<le> nat N" for n
    unfolding y_def y'_def
    using that assms(2) by (intro euler_loop_seed seeds) (simp_all add: ls)
  with eq eq' ly show ?thesis by blast
qed

theorem perform_time_stepping1_y0_only_index_zero_witness:
  "(0::real) < 1 \<and> (1::int) \<le> 2
   \<and> (\<exists>t y y'. perform_time_stepping1 1 2 0 1 (\<lambda>t y. t - 2 * y) = Inr (t, y)
        \<and> perform_time_stepping1 1 2 9 1 (\<lambda>t y. t - 2 * y) = Inr (t, y')
        \<and> y ! 1 = y' ! 1 \<and> y ! 2 = y' ! 2)"
proof -
  from perform_time_stepping1_y0_only_index_zero [of 1 2 0 1 "\<lambda>t y. t - 2 * y" 9] obtain t y y' where
    eq: "perform_time_stepping1 1 2 0 1 (\<lambda>t y. t - 2 * y) = Inr (t, y)"
    and eq': "perform_time_stepping1 1 2 9 1 (\<lambda>t y. t - 2 * y) = Inr (t, y')"
    and same: "\<forall>n. 1 \<le> n \<and> n \<le> 2 \<longrightarrow> y ! n = y' ! n"
    by auto
  from same have "y ! 1 = y' ! 1" "y ! 2 = y' ! 2" by simp_all
  with eq eq' show ?thesis by auto
qed

subsection \<open>Classical Runge-Kutta\<close>

lemma rk4_loop_Suc:
  "rk4_loop (Suc k) h f t y = rk4_step h f t k (rk4_loop k h f t y)"
  by (simp add: rk4_loop_def)

lemma length_rk4_step: "length (rk4_step h f t n y) = length y"
  by (simp add: rk4_step_def Let_def)

lemma rk4_step_other: "r \<noteq> n + 1 \<Longrightarrow> rk4_step h f t n y ! r = y ! r"
  by (simp add: rk4_step_def Let_def)

lemma rk4_step_cong: "y ! n = y' ! n \<Longrightarrow> n + 1 < length y \<Longrightarrow> n + 1 < length y' \<Longrightarrow>
   rk4_step h f t n y ! (n + 1) = rk4_step h f t n y' ! (n + 1)"
  by (simp add: rk4_step_def Let_def)

lemma length_rk4_loop: "length (rk4_loop k h f t y) = length y"
  by (induction k) (simp_all add: rk4_loop_Suc length_rk4_step rk4_loop_def)

lemma rk4_loop_untouched: "r = 0 \<or> k < r \<Longrightarrow> rk4_loop k h f t y ! r = y ! r"
proof (induction k)
  case 0
  then show ?case by (simp add: rk4_loop_def)
next
  case (Suc k)
  then have "r \<noteq> k + 1" by auto
  with Suc show ?case by (auto simp: rk4_loop_Suc rk4_step_other)
qed

lemma rk4_loop_update:
  "n < k \<Longrightarrow> n + 1 < length y \<Longrightarrow>
   rk4_loop k h f t y ! (n + 1) = rk4_step h f t n (rk4_loop k h f t y) ! (n + 1)"
proof (induction k)
  case 0
  then show ?case by simp
next
  case (Suc k)
  let ?Y = "rk4_loop k h f t y"
  have len: "length ?Y = length y" by (rule length_rk4_loop)
  show ?case
  proof (cases "n = k")
    case True
    have "rk4_step h f t k (rk4_step h f t k ?Y) ! (k + 1) = rk4_step h f t k ?Y ! (k + 1)"
      using Suc.prems True len
      by (intro rk4_step_cong) (simp_all add: rk4_step_other length_rk4_step)
    with True show ?thesis by (simp add: rk4_loop_Suc)
  next
    case False
    with Suc.prems have nk: "n < k" by simp
    have "rk4_step h f t n (rk4_step h f t k ?Y) ! (n + 1) = rk4_step h f t n ?Y ! (n + 1)"
      using Suc.prems nk len
      by (intro rk4_step_cong) (simp_all add: rk4_step_other length_rk4_step)
    moreover have "?Y ! (n + 1) = rk4_step h f t n ?Y ! (n + 1)"
      using Suc.IH Suc.prems nk by simp
    ultimately show ?thesis using nk by (simp add: rk4_loop_Suc rk4_step_other)
  qed
qed

lemma perform_time_stepping2_eq:
  "1 \<le> N \<Longrightarrow> linspace 0 T (N + 1) = Inr t \<Longrightarrow>
   perform_time_stepping2 T N M y0 f =
     Inr (t, rk4_loop (nat N) (T / real_of_int N) f t ((replicate (nat (N + 1)) 0)[0 := y0]))"
  by (simp add: perform_time_stepping2_def zeros_def step_size_def setitem_def)

text \<open>
  C3. For \<open>T > 0\<close> and \<open>N \<ge> 1\<close>, \<open>perform_time_stepping2\<close> returns the even grid of
  \<open>N + 1\<close> points over \<open>[0, T]\<close> and values with \<open>y[0] = y0\<close> that satisfy the
  four-stage update with \<open>h = T / N\<close> at every step \<open>n = 0 .. N - 1\<close>.
\<close>

theorem perform_time_stepping2_rk4_contract:
  assumes "0 < T" "1 \<le> N"
  shows "\<exists>t y. perform_time_stepping2 T N M y0 f = Inr (t, y)
     \<and> length t = nat (N + 1) \<and> length y = nat (N + 1)
     \<and> (\<forall>n \<le> nat N. t ! n = real n * T / real_of_int N)
     \<and> t ! 0 = 0 \<and> t ! nat N = T
     \<and> y ! 0 = y0
     \<and> (\<forall>n < nat N.
          let h = T / real_of_int N;
              k1 = h * f (t ! n) (y ! n);
              k2 = h * f (t ! n + h / 2) (y ! n + k1 / 2);
              k3 = h * f (t ! n + h / 2) (y ! n + k2 / 2);
              k4 = h * f (t ! n + h) (y ! n + k3)
          in y ! (n + 1) = y ! n + (k1 + 2 * k2 + 2 * k3 + k4) / 6)"
proof -
  from linspace_grid [OF assms(2), of T] obtain t where
    lin: "linspace 0 T (N + 1) = Inr t" and lt: "length t = nat (N + 1)"
    and grid: "\<forall>n \<le> nat N. t ! n = real n * T / real_of_int N"
    by blast
  define seed where "seed = (replicate (nat (N + 1)) (0::real))[0 := y0]"
  define y where "y = rk4_loop (nat N) (T / real_of_int N) f t seed"
  have eq: "perform_time_stepping2 T N M y0 f = Inr (t, y)"
    using assms(2) lin by (simp add: perform_time_stepping2_eq y_def seed_def)
  have ls: "length seed = nat (N + 1)" by (simp add: seed_def)
  have ly: "length y = nat (N + 1)" by (simp add: y_def length_rk4_loop ls)
  have s0: "seed ! 0 = y0" using assms(2) by (simp add: seed_def)
  have y0: "y ! 0 = y0" by (simp add: y_def rk4_loop_untouched s0)
  have t0: "t ! 0 = 0" using grid by simp
  have tN: "t ! nat N = T" using grid assms(2) by simp
  have "y ! (n + 1) = rk4_step (T / real_of_int N) f t n y ! (n + 1)" if "n < nat N" for n
    unfolding y_def using that ls by (intro rk4_loop_update) simp_all
  then have upd: "\<forall>n < nat N.
          let h = T / real_of_int N;
              k1 = h * f (t ! n) (y ! n);
              k2 = h * f (t ! n + h / 2) (y ! n + k1 / 2);
              k3 = h * f (t ! n + h / 2) (y ! n + k2 / 2);
              k4 = h * f (t ! n + h) (y ! n + k3)
          in y ! (n + 1) = y ! n + (k1 + 2 * k2 + 2 * k3 + k4) / 6"
    using ly by (simp add: rk4_step_def Let_def)
  from eq lt ly grid t0 tN y0 upd show ?thesis by blast
qed

theorem perform_time_stepping2_rk4_contract_witness:
  "(0::real) < 1 \<and> (1::int) \<le> 1
   \<and> (\<exists>t y. perform_time_stepping2 1 1 5 1 (\<lambda>t y. y) = Inr (t, y)
        \<and> length t = 2 \<and> length y = 2 \<and> t ! 0 = 0 \<and> t ! 1 = 1
        \<and> y ! 0 = 1 \<and> y ! 1 = 65 / 24)"
proof -
  from perform_time_stepping2_rk4_contract [of 1 1 5 1 "\<lambda>t y. y"] obtain t y where
    eq: "perform_time_stepping2 1 1 5 1 (\<lambda>t y. y) = Inr (t, y)"
    and len: "length t = 2" "length y = 2"
    and ends: "t ! 0 = 0" "t ! 1 = 1"
    and seed: "y ! 0 = 1"
    and upd: "\<forall>n < 1.
          let h = 1 / real_of_int 1;
              k1 = h * (y ! n);
              k2 = h * (y ! n + k1 / 2);
              k3 = h * (y ! n + k2 / 2);
              k4 = h * (y ! n + k3)
          in y ! (n + 1) = y ! n + (k1 + 2 * k2 + 2 * k3 + k4) / 6"
    by (auto simp: numeral_2_eq_2)
  from upd seed have y1: "y ! 1 = 65 / 24" by (simp add: Let_def)
  from eq len ends seed y1 show ?thesis by auto
qed

text \<open>
  C8. The parameter \<open>M\<close> of \<open>perform_time_stepping2\<close> is not used: for \<open>T > 0\<close> and
  \<open>N \<ge> 1\<close>, calls that differ only in \<open>M\<close> return the same time grid and the same
  solution array.
\<close>

theorem perform_time_stepping2_ignores_M:
  assumes "0 < T" "1 \<le> N"
  shows "\<exists>t y. perform_time_stepping2 T N M y0 f = Inr (t, y)
     \<and> perform_time_stepping2 T N M' y0 f = Inr (t, y)"
proof -
  from linspace_grid [OF assms(2), of T] obtain t where
    lin: "linspace 0 T (N + 1) = Inr t" by blast
  with assms(2) show ?thesis by (simp add: perform_time_stepping2_eq)
qed

theorem perform_time_stepping2_ignores_M_witness:
  "(0::real) < 1 \<and> (1::int) \<le> 1
   \<and> (\<exists>t y. perform_time_stepping2 1 1 5 1 (\<lambda>t y. y) = Inr (t, y)
        \<and> perform_time_stepping2 1 1 7 1 (\<lambda>t y. y) = Inr (t, y))"
  using perform_time_stepping2_ignores_M [of 1 1 5 1 "\<lambda>t y. y" 7] by simp

end
